theory Spec2Isabelle
  imports Complex_Main "HOL-Library.Sublist" "HOL-Library.Multiset"
begin

section \<open>Python values and errors\<close>

text \<open>
  The exceptions that the modelled functions of \<^verbatim>\<open>qa.py\<close> can raise. A function that can
  raise returns \<open>py_error + 'a\<close>, with \<open>Inl\<close> for the exception.
  \<open>RequestError\<close> stands for any exception of the HTTP library.
\<close>

datatype py_error = KeyError | IndexError | TypeError | AttributeError | ValueError | RequestError

definition bind_e :: "py_error + 'a \<Rightarrow> ('a \<Rightarrow> py_error + 'b) \<Rightarrow> py_error + 'b" where
  "bind_e m f = (case m of Inl e \<Rightarrow> Inl e | Inr v \<Rightarrow> f v)"

section \<open>Similarity ranker\<close>

text \<open>
  The numbers of numpy are 32-bit floats. Their type is the parameter \<open>'f\<close>, and the
  arithmetic that numpy does on them is a record of functions about which nothing is
  assumed: rounding, overflow, infinities and NaN are whatever these functions return.
  \<open>fdot\<close> is one entry of \<^verbatim>\<open>np.matmul\<close> (the product of a row and a column),
  \<open>fnorm\<close> is \<^verbatim>\<open>np.linalg.norm\<close> of the entries of an array, \<open>fmul\<close>, \<open>fdiv\<close> and \<open>fneg\<close>
  are \<^verbatim>\<open>*\<close>, \<^verbatim>\<open>/\<close> and unary \<^verbatim>\<open>-\<close>, and \<open>flt\<close> is the comparison \<^verbatim>\<open><\<close>.
\<close>

record 'f float_ops =
  fdot :: "'f list \<Rightarrow> 'f list \<Rightarrow> 'f"
  fnorm :: "'f list \<Rightarrow> 'f"
  fmul :: "'f \<Rightarrow> 'f \<Rightarrow> 'f"
  fdiv :: "'f \<Rightarrow> 'f \<Rightarrow> 'f"
  fneg :: "'f \<Rightarrow> 'f"
  flt :: "'f \<Rightarrow> 'f \<Rightarrow> bool"

text \<open>
  The sentence encoder is an external model, the parameter \<open>enc\<close> that maps a text to its
  vector. \<^verbatim>\<open>embedding_model.encode(inputs)\<close> on a non-empty list is the two-dimensional
  array with one row \<open>enc c\<close> per candidate \<open>c\<close> (shape \<open>(k, d)\<close>); on an empty list the
  library returns \<^verbatim>\<open>np.asarray([])\<close>, a one-dimensional array of length 0 (shape \<open>(0,)\<close>).
\<close>

datatype 'f batch = Shape_0 | Shape_k_d "'f list list"

definition encode_list :: "(string \<Rightarrow> 'f list) \<Rightarrow> string list \<Rightarrow> 'f batch" where
  "encode_list enc inputs = (if inputs = [] then Shape_0 else Shape_k_d (map enc inputs))"

text \<open>
  \<^verbatim>\<open>np.matmul(a, np.transpose(b))\<close> for the one-row array \<open>a\<close> = \<^verbatim>\<open>anchor_emb\<close> of shape
  \<open>(1, d)\<close>, given by its row. Transposing a one-dimensional array leaves it as it is. The
  product raises ValueError when the inner dimensions differ. Its shape is \<open>(1, k)\<close> for a
  second operand of shape \<open>(k, d)\<close>, and \<open>(1,)\<close> for a one-dimensional second operand.
\<close>

datatype 'f product = Shape_1 'f | Shape_1_k "'f list"

fun matmul_T :: "'f float_ops \<Rightarrow> 'f list \<Rightarrow> 'f batch \<Rightarrow> py_error + 'f product" where
  "matmul_T ops a Shape_0 =
     (if length a = 0 then Inr (Shape_1 (fdot ops a [])) else Inl ValueError)"
| "matmul_T ops a (Shape_k_d rows) =
     (if list_all (\<lambda>row. length row = length a) rows
      then Inr (Shape_1_k (map (\<lambda>row. fdot ops a row) rows))
      else Inl ValueError)"

text \<open>\<^verbatim>\<open>np.linalg.norm\<close> without an axis takes all entries of the array, for a vector and for
  a matrix alike; dividing an array by a scalar divides every entry.\<close>

fun np_norm :: "'f float_ops \<Rightarrow> 'f batch \<Rightarrow> 'f" where
  "np_norm ops Shape_0 = fnorm ops []"
| "np_norm ops (Shape_k_d rows) = fnorm ops (concat rows)"

fun np_div :: "'f float_ops \<Rightarrow> 'f product \<Rightarrow> 'f \<Rightarrow> 'f product" where
  "np_div ops (Shape_1 x) s = Shape_1 (fdiv ops x s)"
| "np_div ops (Shape_1_k xs) s = Shape_1_k (map (\<lambda>x. fdiv ops x s) xs)"

text \<open>\<^verbatim>\<open>cos_sim(a, b)\<close> as \<^verbatim>\<open>get_topn_similar\<close> calls it. Both norms are taken over the whole
  arrays, so every entry of the product is divided by the same number.\<close>

definition cos_sim :: "'f float_ops \<Rightarrow> 'f list \<Rightarrow> 'f batch \<Rightarrow> py_error + 'f product" where
  "cos_sim ops a b =
     bind_e (matmul_T ops a b) (\<lambda>m.
       Inr (np_div ops m (fmul ops (fnorm ops a) (np_norm ops b))))"

text \<open>
  \<^verbatim>\<open>np.squeeze\<close> removes every axis of length one. A \<open>(1, k)\<close> array becomes a vector of
  length \<open>k\<close>, except for \<open>k = 1\<close>, where both axes go and a zero-dimensional array is left,
  as it is for shape \<open>(1,)\<close>. Iterating over a zero-dimensional array (as \<^verbatim>\<open>zip\<close> does)
  raises TypeError.
\<close>

datatype 'f ndarray = Arr0 'f | Arr1 "'f list"

fun np_squeeze :: "'f product \<Rightarrow> 'f ndarray" where
  "np_squeeze (Shape_1 x) = Arr0 x"
| "np_squeeze (Shape_1_k [x]) = Arr0 x"
| "np_squeeze (Shape_1_k row) = Arr1 row"

fun py_zip :: "'f ndarray \<Rightarrow> 'a list \<Rightarrow> py_error + ('f \<times> 'a) list" where
  "py_zip (Arr0 x) ys = Inl TypeError"
| "py_zip (Arr1 xs) ys = Inr (zip xs ys)"

text \<open>The slice \<^verbatim>\<open>xs[:n]\<close>; a negative \<open>n\<close> counts from the end.\<close>

definition slice_to :: "int \<Rightarrow> 'a list \<Rightarrow> 'a list" where
  "slice_to n xs = (if 0 \<le> n then take (nat n) xs else take (nat (int (length xs) + n)) xs)"

text \<open>
  \<^verbatim>\<open>sorted(similarities, key=lambda s: -s[0])\<close> compares the keys with \<^verbatim>\<open><\<close> only and is
  stable. Where \<^verbatim>\<open><\<close> is a strict weak order on the keys of the list (irreflexive,
  transitive, and with a transitive incomparability), the result is determined by that: it is
  the stable sort, computed here by insertion from the right. Where it is not (NaN among
  different numbers, every comparison with NaN being false), the list that CPython returns
  depends on how its sort proceeds; the model then gives \<open>None\<close>, for a list it does not
  determine.
\<close>

definition strict_weak_on :: "('f \<Rightarrow> 'f \<Rightarrow> bool) \<Rightarrow> 'f list \<Rightarrow> bool" where
  "strict_weak_on lt ks =
     list_all (\<lambda>a. \<not> lt a a \<and>
       list_all (\<lambda>b.
         list_all (\<lambda>c.
           (if lt a b \<and> lt b c then lt a c else True) \<and>
           (if \<not> lt a b \<and> \<not> lt b a \<and> \<not> lt b c \<and> \<not> lt c b then \<not> lt a c \<and> \<not> lt c a else True))
         ks) ks) ks"

fun insert_by :: "('f \<Rightarrow> 'f \<Rightarrow> bool) \<Rightarrow> ('a \<Rightarrow> 'f) \<Rightarrow> 'a \<Rightarrow> 'a list \<Rightarrow> 'a list" where
  "insert_by lt key x [] = [x]"
| "insert_by lt key x (y # ys) =
     (if lt (key y) (key x) then y # insert_by lt key x ys else x # y # ys)"

definition stable_sort_by :: "('f \<Rightarrow> 'f \<Rightarrow> bool) \<Rightarrow> ('a \<Rightarrow> 'f) \<Rightarrow> 'a list \<Rightarrow> 'a list" where
  "stable_sort_by lt key xs = foldr (insert_by lt key) xs []"

definition py_sorted :: "('f \<Rightarrow> 'f \<Rightarrow> bool) \<Rightarrow> ('a \<Rightarrow> 'f) \<Rightarrow> 'a list \<Rightarrow> 'a list option" where
  "py_sorted lt key xs =
     (if strict_weak_on lt (map key xs) then Some (stable_sort_by lt key xs) else None)"

text \<open>\<^verbatim>\<open>get_topn_similar\<close>. The result \<open>Inr None\<close> is a call that returns a list which the
  model does not determine (see \<open>py_sorted\<close>).\<close>

definition get_topn_similar ::
    "'f float_ops \<Rightarrow> (string \<Rightarrow> 'f list) \<Rightarrow> string \<Rightarrow> string list \<Rightarrow> int \<Rightarrow> py_error + string list option" where
  "get_topn_similar ops enc anchor inputs n =
     (let anchor_emb = enc anchor;
          inputs_emb = encode_list enc inputs
      in bind_e (cos_sim ops anchor_emb inputs_emb) (\<lambda>sims.
         bind_e (py_zip (np_squeeze sims) inputs) (\<lambda>similarities.
           case py_sorted (flt ops) (\<lambda>s. fneg ops (fst s)) similarities of
             None \<Rightarrow> Inr None
           | Some ranking \<Rightarrow> Inr (Some (map snd (slice_to n ranking))))))"

text \<open>The score that the ranker gives to candidate \<open>c\<close> in a call with two or more inputs,
  and when two scores are equal for the ranking: neither key (negated score) is less than
  the other. For floats that are not NaN this is \<^verbatim>\<open>==\<close>.\<close>

definition score :: "'f float_ops \<Rightarrow> (string \<Rightarrow> 'f list) \<Rightarrow> string \<Rightarrow> string list \<Rightarrow> string \<Rightarrow> 'f" where
  "score ops enc anchor inputs c =
     fdiv ops (fdot ops (enc anchor) (enc c))
       (fmul ops (fnorm ops (enc anchor)) (fnorm ops (concat (map enc inputs))))"

definition tied :: "'f float_ops \<Rightarrow> 'f \<Rightarrow> 'f \<Rightarrow> bool" where
  "tied ops x y =
     (\<not> flt ops (fneg ops x) (fneg ops y) \<and> \<not> flt ops (fneg ops y) (fneg ops x))"

section \<open>Knowledge-base client\<close>

text \<open>
  A decoded JSON document, as \<^verbatim>\<open>requests.get(url).json()\<close> returns it: \<open>JObj\<close> is a
  Python dict (looked up with \<open>map_of\<close>), \<open>JArr\<close> a list, \<open>JStr\<close> a str, \<open>JNull\<close> is None.
\<close>

datatype json =
    JNull
  | JBool bool
  | JNum real
  | JStr string
  | JArr "json list"
  | JObj "(string \<times> json) list"

text \<open>
  The remote service is a parameter: it maps the URL of a GET request to the decoded
  response, or to the exception that the request raised.
\<close>

type_synonym service = "string \<Rightarrow> py_error + json"

text \<open>
  Subscription \<^verbatim>\<open>x[k]\<close> with a str key or an int index (only non-negative indices
  occur here). The keys of a decoded JSON object are strings, so an int is never among them.
\<close>

datatype subscript = Key string | Idx nat

fun getitem :: "json \<Rightarrow> subscript \<Rightarrow> py_error + json" where
  "getitem (JObj kvs) (Key k) = (case map_of kvs k of None \<Rightarrow> Inl KeyError | Some v \<Rightarrow> Inr v)"
| "getitem (JObj kvs) (Idx i) = Inl KeyError"
| "getitem (JArr xs) (Idx i) = (if i < length xs then Inr (xs ! i) else Inl IndexError)"
| "getitem (JArr xs) (Key k) = Inl TypeError"
| "getitem (JStr s) (Idx i) = (if i < length s then Inr (JStr [s ! i]) else Inl IndexError)"
| "getitem (JStr s) (Key k) = Inl TypeError"
| "getitem JNull _ = Inl TypeError"
| "getitem (JBool _) _ = Inl TypeError"
| "getitem (JNum _) _ = Inl TypeError"

text \<open>A chain of subscriptions \<^verbatim>\<open>x[k1][k2]...\<close>, left to right; the first exception ends it.\<close>

fun getpath :: "json \<Rightarrow> subscript list \<Rightarrow> py_error + json" where
  "getpath j [] = Inr j"
| "getpath j (k # ks) = bind_e (getitem j k) (\<lambda>v. getpath v ks)"

text \<open>
  The operator \<^verbatim>\<open>k in x\<close> for a str \<open>k\<close>: key membership for a dict, substring test for a
  str, element membership for a list, TypeError for anything that is not iterable.
\<close>

fun py_in :: "string \<Rightarrow> json \<Rightarrow> py_error + bool" where
  "py_in k (JObj kvs) = Inr (map_of kvs k \<noteq> None)"
| "py_in k (JStr s) = Inr (sublist k s)"
| "py_in k (JArr xs) = Inr (JStr k \<in> set xs)"
| "py_in k JNull = Inl TypeError"
| "py_in k (JBool _) = Inl TypeError"
| "py_in k (JNum _) = Inl TypeError"

text \<open>\<^verbatim>\<open>x.lstrip("+")\<close>: only a str has the method.\<close>

fun py_lstrip_plus :: "json \<Rightarrow> py_error + json" where
  "py_lstrip_plus (JStr s) = Inr (JStr (dropWhile (\<lambda>c. c = CHR ''+'') s))"
| "py_lstrip_plus _ = Inl AttributeError"

text \<open>\<^verbatim>\<open>s + x\<close> for a str \<open>s\<close>: only a str can be concatenated to it.\<close>

fun py_str_plus :: "string \<Rightarrow> json \<Rightarrow> py_error + string" where
  "py_str_plus s (JStr t) = Inr (s @ t)"
| "py_str_plus s _ = Inl TypeError"

text \<open>\<^verbatim>\<open>value += s\<close> for a str \<open>s\<close>: concatenation for a str, extension by the characters of
  \<open>s\<close> for a list, TypeError otherwise.\<close>

fun py_iadd :: "json \<Rightarrow> string \<Rightarrow> py_error + json" where
  "py_iadd (JStr v) s = Inr (JStr (v @ s))"
| "py_iadd (JArr xs) s = Inr (JArr (xs @ map (\<lambda>c. JStr [c]) s))"
| "py_iadd _ s = Inl TypeError"

text \<open>\<^verbatim>\<open>s.split(sep)\<close> for a one-character separator, and the subscription \<^verbatim>\<open>xs[-1]\<close>.\<close>

fun py_split :: "char \<Rightarrow> string \<Rightarrow> string list" where
  "py_split sep [] = [[]]"
| "py_split sep (c # cs) =
     (if c = sep then [] # py_split sep cs
      else (case py_split sep cs of [] \<Rightarrow> [[c]] | w # ws \<Rightarrow> (c # w) # ws))"

definition py_last :: "'a list \<Rightarrow> py_error + 'a" where
  "py_last xs = (if xs = [] then Inl IndexError else Inr (last xs))"

definition label_url :: "string \<Rightarrow> string" where
  "label_url entity =
     ''https://www.wikidata.org/w/api.php?action=wbgetentities&'' @
     ''ids='' @ entity @ ''&props=labels&languages=en&format=json''"

definition claims_url :: "string \<Rightarrow> string" where
  "claims_url entity =
     ''https://www.wikidata.org/w/api.php?action=wbgetentities&'' @
     ''ids='' @ entity @ ''&props=claims&language=en&format=json''"

definition get_label :: "service \<Rightarrow> string \<Rightarrow> py_error + json" where
  "get_label svc entity =
     bind_e (py_last (py_split CHR ''/'' entity)) (\<lambda>entity.
     bind_e (svc (label_url entity)) (\<lambda>result.
       getpath result [Key ''entities'', Key entity, Key ''labels'', Key ''en'', Key ''value'']))"

text \<open>\<^verbatim>\<open>get_label(x)\<close> for a value \<open>x\<close> taken out of a response: only a str has \<^verbatim>\<open>split\<close>.\<close>

fun get_label_of :: "service \<Rightarrow> json \<Rightarrow> py_error + json" where
  "get_label_of svc (JStr s) = get_label svc s"
| "get_label_of svc _ = Inl AttributeError"

text \<open>Lines 100 to 107 of \<^verbatim>\<open>get_prop_value\<close>: the \<^verbatim>\<open>if\<close> chain over
  \<open>dv = claim["datavalue"]["value"]\<close> that sets \<^verbatim>\<open>value\<close>.\<close>

definition claim_value :: "service \<Rightarrow> json \<Rightarrow> py_error + json" where
  "claim_value svc dv =
     bind_e (py_in ''amount'' dv) (\<lambda>is_amount.
       if is_amount then bind_e (getitem dv (Key ''amount'')) py_lstrip_plus
       else bind_e (py_in ''time'' dv) (\<lambda>is_time.
         if is_time then getitem dv (Key ''time'')
         else bind_e (py_in ''id'' dv) (\<lambda>is_id.
           if is_id then bind_e (getitem dv (Key ''id'')) (get_label_of svc)
           else Inr dv)))"

text \<open>Lines 109 to 112: the unit suffix; a KeyError raised anywhere inside the \<^verbatim>\<open>try\<close>
  leaves \<^verbatim>\<open>value\<close> as it is, any other exception propagates.\<close>

definition add_unit :: "service \<Rightarrow> json \<Rightarrow> json \<Rightarrow> py_error + json" where
  "add_unit svc dv val =
     (case bind_e (getitem dv (Key ''unit'')) (\<lambda>u.
           bind_e (get_label_of svc u) (\<lambda>l.
           bind_e (py_str_plus '' '' l) (\<lambda>suffix. py_iadd val suffix))) of
        Inl e \<Rightarrow> if e = KeyError then Inr val else Inl e
      | Inr v \<Rightarrow> Inr v)"

text \<open>\<^verbatim>\<open>get_prop_value\<close>; the result \<open>None\<close> is Python's \<^verbatim>\<open>None\<close>.\<close>

definition get_prop_value :: "service \<Rightarrow> string \<Rightarrow> string \<Rightarrow> py_error + json option" where
  "get_prop_value svc entity prop =
     bind_e (svc (claims_url entity)) (\<lambda>result.
       case getpath result [Key ''entities'', Key entity, Key ''claims'', Key prop, Idx 0,
                            Key ''mainsnak''] of
         Inl e \<Rightarrow> if e = KeyError then Inr None else Inl e
       | Inr claim \<Rightarrow>
           bind_e (getpath claim [Key ''datavalue'', Key ''value'']) (\<lambda>dv.
           bind_e (claim_value svc dv) (\<lambda>val.
           bind_e (add_unit svc dv val) (\<lambda>v. Inr (Some v)))))"

text \<open>
  The three shapes of a claim value that the specification names, with the value each one
  resolves to before the unit is added.
\<close>

datatype claim_shape = Amount string | Time string | EntityRef string

fun has_shape :: "(string \<times> json) list \<Rightarrow> claim_shape \<Rightarrow> bool" where
  "has_shape kvs (Amount a) = (map_of kvs ''amount'' = Some (JStr a))"
| "has_shape kvs (Time t) =
     (map_of kvs ''amount'' = None \<and> map_of kvs ''time'' = Some (JStr t))"
| "has_shape kvs (EntityRef i) =
     (map_of kvs ''amount'' = None \<and> map_of kvs ''time'' = None \<and> map_of kvs ''id'' = Some (JStr i))"

fun shape_value :: "service \<Rightarrow> claim_shape \<Rightarrow> py_error + json" where
  "shape_value svc (Amount a) = Inr (JStr (dropWhile (\<lambda>c. c = CHR ''+'') a))"
| "shape_value svc (Time t) = Inr (JStr t)"
| "shape_value svc (EntityRef i) = get_label svc i"

section \<open>Response generator\<close>

text \<open>\<^verbatim>\<open>sep.join(xs)\<close>.\<close>

fun py_join :: "string \<Rightarrow> string list \<Rightarrow> string" where
  "py_join sep [] = []"
| "py_join sep [x] = x"
| "py_join sep (x # y # ys) = x @ sep @ py_join sep (y # ys)"

text \<open>Lines 160 to 163 of \<^verbatim>\<open>generate\<close>: the prompt.\<close>

definition generate_query :: "string \<Rightarrow> string \<Rightarrow> string list \<Rightarrow> string" where
  "generate_query instruction knowledge dialog =
     (let knowledge2 = (if knowledge \<noteq> [] then ''[KNOWLEDGE] '' @ knowledge else knowledge);
          dialog2 = py_join '' EOS '' dialog
      in instruction @ '' [CONTEXT] '' @ dialog2 @ '' '' @ knowledge2)"

text \<open>The tokenizer, the sampling model and the decoder are one external function \<open>lm\<close> from
  the prompt to the reply of this run.\<close>

definition generate :: "(string \<Rightarrow> string) \<Rightarrow> string \<Rightarrow> string \<Rightarrow> string list \<Rightarrow> string" where
  "generate lm instruction knowledge dialog = lm (generate_query instruction knowledge dialog)"

section \<open>Interactive loop\<close>

definition instruction :: string where
  "instruction = ''Instruction: given a dialog context and related knowledge, you need to respond safely based on the knowledge.''"

text \<open>
  The loop of lines 224 to 246, run on the lines that \<^verbatim>\<open>input\<close> returns until the input
  ends. The state is the list \<^verbatim>\<open>dialog\<close>. The parameter \<open>kb\<close> stands for lines 233 to 240,
  which build the knowledge string of a query from external services and may raise; an
  exception ends the loop. The result is the trace of the calls of \<^verbatim>\<open>generate\<close>:
  instruction, knowledge and dialogue argument of each.
\<close>

fun main_loop :: "bool \<Rightarrow> (string \<Rightarrow> py_error + string) \<Rightarrow> string list \<Rightarrow> string list
    \<Rightarrow> (string \<times> string \<times> string list) list" where
  "main_loop wikidata kb dialog [] = []"
| "main_loop wikidata kb dialog (query # rest) =
     (let dialog2 = dialog @ [query]
      in case (if wikidata then kb query else Inr []) of
           Inl e \<Rightarrow> []
         | Inr knowledge \<Rightarrow>
             (instruction, knowledge, take 500 dialog2) # main_loop wikidata kb dialog2 rest)"

section \<open>Auxiliary definitions\<close>

text \<open>The scored candidates of a call, before sorting; and a strict weak order on a set.\<close>

definition scored :: "'f float_ops \<Rightarrow> (string \<Rightarrow> 'f list) \<Rightarrow> string \<Rightarrow> string list \<Rightarrow> ('f \<times> string) list" where
  "scored ops enc anchor inputs = zip (map (score ops enc anchor inputs) inputs) inputs"

definition swo :: "('f \<Rightarrow> 'f \<Rightarrow> bool) \<Rightarrow> 'f set \<Rightarrow> bool" where
  "swo lt K \<longleftrightarrow>
     (\<forall>a\<in>K. \<not> lt a a) \<and>
     (\<forall>a\<in>K. \<forall>b\<in>K. \<forall>c\<in>K. lt a b \<and> lt b c \<longrightarrow> lt a c) \<and>
     (\<forall>a\<in>K. \<forall>b\<in>K. \<forall>c\<in>K. \<not> lt a b \<and> \<not> lt b a \<and> \<not> lt b c \<and> \<not> lt c b \<longrightarrow> \<not> lt a c \<and> \<not> lt c a)"

text \<open>For the examples: arithmetic without rounding on the reals, and an encoder under which
  the candidates \<open>a\<close> and \<open>c\<close> have the same vector.\<close>

definition exact_ops :: "real float_ops" where
  "exact_ops = \<lparr> fdot = (\<lambda>a b. sum_list (map2 (*) a b)),
                 fnorm = (\<lambda>v. sqrt (sum_list (map (\<lambda>x. x * x) v))),
                 fmul = (*), fdiv = (/), fneg = uminus, flt = (<) \<rparr>"

definition enc_demo :: "string \<Rightarrow> real list" where
  "enc_demo s = (if s = ''b'' then [0, 1] else [1, 0])"

text \<open>For the examples: numbers with a NaN, every comparison with which is false.\<close>

datatype fl = Num real | NaN

fun fl_lt :: "fl \<Rightarrow> fl \<Rightarrow> bool" where
  "fl_lt (Num a) (Num b) = (a < b)"
| "fl_lt _ _ = False"

text \<open>
  A service for the examples, after the doctests of \<^verbatim>\<open>qa.py\<close>: the claims of Saturn
  (\<open>Q193\<close>) with a mass (a quantity with a unit), a parent body (an entity reference) and a
  Commons category (a string), and the labels of the two entities referred to.
\<close>

definition snak :: "json \<Rightarrow> json" where
  "snak v = JArr [JObj [(''mainsnak'', JObj [(''snaktype'', JStr ''value''),
                                            (''datavalue'', JObj [(''value'', v)])])]]"

definition saturn_claims :: json where
  "saturn_claims = JObj [(''entities'', JObj [(''Q193'', JObj [(''claims'', JObj [
      (''P2067'', snak (JObj [(''amount'', JStr ''+568360''),
                              (''unit'', JStr ''http://www.wikidata.org/entity/Q613726'')])),
      (''P397'', snak (JObj [(''entity-type'', JStr ''item''), (''numeric-id'', JNum 525),
                             (''id'', JStr ''Q525'')])),
      (''P373'', snak (JStr ''Saturn (planet)''))])])])]"

definition label_response :: "string \<Rightarrow> string \<Rightarrow> json" where
  "label_response entity l =
     JObj [(''entities'', JObj [(entity, JObj [(''labels'', JObj [(''en'',
       JObj [(''language'', JStr ''en''), (''value'', JStr l)])])])])]"

definition svc_demo :: service where
  "svc_demo url =
     (if url = claims_url ''Q193'' then Inr saturn_claims
      else if url = label_url ''Q613726'' then Inr (label_response ''Q613726'' ''yottagram'')
      else if url = label_url ''Q525'' then Inr (label_response ''Q525'' ''Sun'')
      else Inl RequestError)"

section \<open>Properties of the similarity ranker\<close>

lemma bind_e_simps [simp]: "bind_e (Inl e) f = Inl e" "bind_e (Inr v) f = f v"
  by (simp_all add: bind_e_def)

text \<open>One candidate, and no candidate: the call raises.\<close>

lemma get_topn_similar_single:
  "get_topn_similar ops enc anchor [c] n =
     Inl (if length (enc c) = length (enc anchor) then TypeError else ValueError)"
  by (simp add: get_topn_similar_def cos_sim_def encode_list_def)

lemma get_topn_similar_empty:
  "get_topn_similar ops enc anchor [] n =
     Inl (if length (enc anchor) = 0 then TypeError else ValueError)"
  by (simp add: get_topn_similar_def cos_sim_def encode_list_def)

lemma np_squeeze_not_single: "length row \<noteq> 1 \<Longrightarrow> np_squeeze (Shape_1_k row) = Arr1 row"
  by (cases row rule: list.exhaust; cases "tl row") auto

text \<open>Two or more candidates with vectors of the dimension of the anchor's: the call returns
  the first \<open>n\<close> candidates of the sorted list of scored candidates.\<close>

lemma get_topn_similar_returns:
  assumes "list_all (\<lambda>c. length (enc c) = length (enc anchor)) inputs" and "2 \<le> length inputs"
  shows "get_topn_similar ops enc anchor inputs n =
         Inr (map_option (\<lambda>ranking. map snd (slice_to n ranking))
               (py_sorted (flt ops) (\<lambda>s. fneg ops (fst s)) (scored ops enc anchor inputs)))"
proof -
  from assms(2) have ne: "inputs \<noteq> []" by auto
  have sims: "cos_sim ops (enc anchor) (encode_list enc inputs)
      = Inr (Shape_1_k (map (score ops enc anchor inputs) inputs))"
    using assms(1) ne by (simp add: cos_sim_def encode_list_def score_def list_all_iff)
  have sq: "np_squeeze (Shape_1_k (map (score ops enc anchor inputs) inputs))
      = Arr1 (map (score ops enc anchor inputs) inputs)"
    using assms(2) by (simp add: np_squeeze_not_single)
  show ?thesis
    by (simp add: get_topn_similar_def sims sq scored_def split: option.splits)
qed

text \<open>Where \<^verbatim>\<open><\<close> is a strict weak order on the keys, the list is determined; with a NaN
  among different numbers it is not, and a list of NaN only is left as it is.\<close>

lemma map_key_zip: "map (\<lambda>s. g (fst s)) (zip (map f xs) xs) = map (\<lambda>c. g (f c)) xs"
  by (induction xs) simp_all

lemma keys_scored:
  "map (\<lambda>s. fneg ops (fst s)) (scored ops enc anchor inputs)
   = map (\<lambda>c. fneg ops (score ops enc anchor inputs c)) inputs"
  unfolding scored_def by (rule map_key_zip)

lemma get_topn_similar_determined:
  assumes "list_all (\<lambda>c. length (enc c) = length (enc anchor)) inputs" and "2 \<le> length inputs"
    and "strict_weak_on (flt ops) (map (\<lambda>c. fneg ops (score ops enc anchor inputs c)) inputs)"
  shows "get_topn_similar ops enc anchor inputs n =
         Inr (Some (map snd (slice_to n
           (stable_sort_by (flt ops) (\<lambda>s. fneg ops (fst s)) (scored ops enc anchor inputs)))))"
  using assms(3)
  by (simp add: get_topn_similar_returns[OF assms(1,2)] py_sorted_def keys_scored)

lemma nan_among_numbers_undetermined:
  "py_sorted fl_lt fst [(Num 1, ''x''), (NaN, ''n''), (Num 0, ''z'')] = None"
  by (simp add: py_sorted_def strict_weak_on_def)

lemma nan_only_keeps_order:
  "py_sorted fl_lt fst [(NaN, ''n''), (NaN, ''m'')] = Some [(NaN, ''n''), (NaN, ''m'')]"
  by (simp add: py_sorted_def strict_weak_on_def stable_sort_by_def)

lemma get_topn_similar_SomeD:
  assumes "get_topn_similar ops enc anchor inputs n = Inr (Some out)"
  shows "strict_weak_on (flt ops) (map (\<lambda>s. fneg ops (fst s)) (scored ops enc anchor inputs))
       \<and> out = map snd (slice_to n (stable_sort_by (flt ops) (\<lambda>s. fneg ops (fst s)) (scored ops enc anchor inputs)))"
proof -
  have d: "list_all (\<lambda>c. length (enc c) = length (enc anchor)) inputs"
  proof (rule ccontr)
    assume "\<not> ?thesis"
    then have "inputs \<noteq> []" by auto
    with \<open>\<not> list_all _ inputs\<close>
    have "cos_sim ops (enc anchor) (encode_list enc inputs) = Inl ValueError"
      by (simp add: cos_sim_def encode_list_def list_all_iff)
    then have "get_topn_similar ops enc anchor inputs n = Inl ValueError"
      by (simp add: get_topn_similar_def)
    with assms show False by simp
  qed
  have "length inputs \<noteq> 0" using assms by (auto simp: get_topn_similar_empty)
  moreover have "length inputs \<noteq> 1"
  proof
    assume "length inputs = 1"
    then obtain c where "inputs = [c]" by (cases inputs) auto
    with assms show False by (simp add: get_topn_similar_single)
  qed
  ultimately have "2 \<le> length inputs" by arith
  from get_topn_similar_returns[OF d this, of ops n] assms show ?thesis
    by (auto simp: py_sorted_def split: if_splits)
qed


lemma insert_by_split:
  "insert_by lt key x ys =
     takeWhile (\<lambda>z. lt (key z) (key x)) ys @ x # dropWhile (\<lambda>z. lt (key z) (key x)) ys"
  by (induction ys) simp_all

lemma set_insert_by: "set (insert_by lt key x ys) = insert x (set ys)"
  by (induction ys) auto

lemma mset_insert_by: "mset (insert_by lt key x ys) = add_mset x (mset ys)"
  by (induction ys) simp_all

lemma mset_stable_sort_by: "mset (stable_sort_by lt key xs) = mset xs"
  by (induction xs) (simp_all add: stable_sort_by_def mset_insert_by)

lemma set_stable_sort_by: "set (stable_sort_by lt key xs) = set xs"
  by (metis mset_stable_sort_by set_mset_mset)

lemma stable_sort_by_Cons:
  "stable_sort_by lt key (x # xs) = insert_by lt key x (stable_sort_by lt key xs)"
  by (simp add: stable_sort_by_def)

lemma subseq_set: "subseq xs ys \<Longrightarrow> x \<in> set xs \<Longrightarrow> x \<in> set ys"
  by (erule list_emb_set) auto

lemma subseq_insert_by:
  assumes "subseq ws ys"
  shows "subseq ws (insert_by lt key x ys)"
proof -
  let ?P = "\<lambda>z. lt (key z) (key x)"
  have "subseq (dropWhile ?P ys) (x # dropWhile ?P ys)"
    by (rule list_emb_Cons) simp
  then have "subseq (takeWhile ?P ys @ dropWhile ?P ys) (takeWhile ?P ys @ x # dropWhile ?P ys)"
    by (simp only: subseq_append')
  then have "subseq ys (insert_by lt key x ys)"
    by (simp add: insert_by_split)
  with assms show ?thesis
    by (rule subseq_order.order_trans)
qed

lemma subseq_pair_insert_by:
  assumes "b \<in> set ys" and "\<not> lt (key b) (key a)"
  shows "subseq [a, b] (insert_by lt key a ys)"
proof -
  let ?P = "\<lambda>z. lt (key z) (key a)"
  have "b \<notin> set (takeWhile ?P ys)"
    using assms(2) by (auto dest: set_takeWhileD)
  moreover have "set ys = set (takeWhile ?P ys) \<union> set (dropWhile ?P ys)"
    by (metis set_append takeWhile_dropWhile_id)
  ultimately have "b \<in> set (dropWhile ?P ys)"
    using assms(1) by simp
  then have "subseq [b] (dropWhile ?P ys)"
    by (simp add: subseq_singleton_left)
  then have "subseq ([a] @ [b]) ((takeWhile ?P ys @ [a]) @ dropWhile ?P ys)"
    by (intro list_emb_append_mono) (simp_all add: list_emb_append2)
  then show ?thesis
    by (simp add: insert_by_split)
qed

lemma stable_sort_by_keeps_order:
  assumes "subseq [a, b] xs" and "\<not> lt (key b) (key a)"
  shows "subseq [a, b] (stable_sort_by lt key xs)"
  using assms(1)
proof (induction xs rule: list.induct)
  case Nil
  then show ?case by simp
next
  case (Cons c xs)
  from Cons.prems consider "subseq [a, b] xs" | "c = a" "subseq [b] xs"
    by (auto split: if_splits)
  then show ?case
  proof cases
    case 1
    then show ?thesis
      by (simp add: stable_sort_by_Cons Cons.IH subseq_insert_by)
  next
    case 2
    then have "b \<in> set (stable_sort_by lt key xs)"
      by (simp add: subseq_singleton_left set_stable_sort_by)
    with 2(1) assms(2) show ?thesis
      by (simp add: stable_sort_by_Cons subseq_pair_insert_by)
  qed
qed

lemma subseq_pair_nth:
  assumes "i < j" and "j < length xs"
  shows "subseq [xs ! i, xs ! j] xs"
proof -
  have "xs = take i xs @ xs ! i # drop (Suc i) xs"
    using assms by (simp add: id_take_nth_drop)
  moreover have "drop (Suc i) xs = take (j - Suc i) (drop (Suc i) xs) @ xs ! j # drop (Suc j) xs"
    using assms id_take_nth_drop[of "j - Suc i" "drop (Suc i) xs"] by simp
  ultimately have "xs = take i xs @ [xs ! i] @ take (j - Suc i) (drop (Suc i) xs) @ [xs ! j] @ drop (Suc j) xs"
    by simp
  moreover have "subseq ([] @ [xs ! i] @ [] @ [xs ! j] @ [])
     (take i xs @ [xs ! i] @ take (j - Suc i) (drop (Suc i) xs) @ [xs ! j] @ drop (Suc j) xs)"
    by (intro list_emb_append_mono) simp_all
  ultimately show ?thesis by simp
qed

lemma subseq_pair_prefix:
  assumes "subseq [a, b] ys" and "prefix out ys" and "distinct ys" and "b \<in> set out"
  shows "subseq [a, b] out"
proof -
  from assms(2) obtain rest where ys: "ys = out @ rest" by (auto simp: prefix_def)
  with assms(3,4) have nb: "b \<notin> set rest" by auto
  from assms(1) ys obtain w1 w2 where w: "[a, b] = w1 @ w2" "subseq w1 out" "subseq w2 rest"
    by (auto elim: subseq_appendE)
  show ?thesis
  proof (cases "w2 = []")
    case True
    with w show ?thesis by simp
  next
    case False
    with w(1) have "b \<in> set w2"
      by (cases w1; cases "tl w1") auto
    with w(3) have "b \<in> set rest" by (rule subseq_set)
    with nb show ?thesis by simp
  qed
qed

lemma strict_weak_on_swo: "strict_weak_on lt ks \<longleftrightarrow> swo lt (set ks)"
  unfolding strict_weak_on_def swo_def list_all_iff by (simp split: if_splits) blast

lemma filter_insert_by:
  assumes "swo lt K" and "key x \<in> K" and "key ` set ys \<subseteq> K" and "k \<in> K"
  shows "filter (\<lambda>z. \<not> lt (key z) k \<and> \<not> lt k (key z)) (insert_by lt key x ys)
       = filter (\<lambda>z. \<not> lt (key z) k \<and> \<not> lt k (key z)) (x # ys)"
proof -
  let ?Q = "\<lambda>z. \<not> lt (key z) k \<and> \<not> lt k (key z)"
  let ?P = "\<lambda>z. lt (key z) (key x)"
  have ys: "filter ?Q ys = filter ?Q (takeWhile ?P ys) @ filter ?Q (dropWhile ?P ys)"
    by (metis filter_append takeWhile_dropWhile_id)
  show ?thesis
  proof (cases "?Q x")
    case False
    then show ?thesis by (auto simp: insert_by_split ys)
  next
    case True
    have "\<not> ?Q z" if z: "z \<in> set (takeWhile ?P ys)" for z
    proof
      assume q: "?Q z"
      from z have zk: "key z \<in> K" and lz: "lt (key z) (key x)"
        using assms(3) by (auto dest: set_takeWhileD)
      from assms(1) zk assms(4) assms(2) q True have "\<not> lt (key z) (key x)"
        unfolding swo_def by blast
      with lz show False by simp
    qed
    then have "filter ?Q (takeWhile ?P ys) = []"
      by (simp add: filter_empty_conv)
    with True show ?thesis by (simp add: insert_by_split ys)
  qed
qed

lemma filter_stable_sort_by:
  assumes "swo lt K" and "key ` set xs \<subseteq> K" and "k \<in> K"
  shows "filter (\<lambda>z. \<not> lt (key z) k \<and> \<not> lt k (key z)) (stable_sort_by lt key xs)
       = filter (\<lambda>z. \<not> lt (key z) k \<and> \<not> lt k (key z)) xs"
  using assms(2)
proof (induction xs)
  case Nil
  show ?case by (simp add: stable_sort_by_def)
next
  case (Cons x xs)
  have "key ` set (stable_sort_by lt key xs) \<subseteq> K"
    using Cons.prems by (simp add: set_stable_sort_by)
  moreover have "key x \<in> K" using Cons.prems by simp
  ultimately have "filter (\<lambda>z. \<not> lt (key z) k \<and> \<not> lt k (key z)) (stable_sort_by lt key (x # xs))
     = filter (\<lambda>z. \<not> lt (key z) k \<and> \<not> lt k (key z)) (x # stable_sort_by lt key xs)"
    unfolding stable_sort_by_Cons using assms(1,3) by (intro filter_insert_by)
  then show ?case using Cons by simp
qed

lemma swo_between:
  assumes "swo lt K" and "a \<in> K" and "b \<in> K" and "c \<in> K" and "lt a c"
  shows "lt a b \<or> lt b c"
  using assms unfolding swo_def by blast

lemma sorted_insert_by:
  assumes "swo lt K" and "key x \<in> K" and "key ` set ys \<subseteq> K"
    and "sorted_wrt (\<lambda>a b. \<not> lt (key b) (key a)) ys"
  shows "sorted_wrt (\<lambda>a b. \<not> lt (key b) (key a)) (insert_by lt key x ys)"
  using assms(3,4)
proof (induction ys)
  case Nil
  show ?case by simp
next
  case (Cons y ys)
  show ?case
  proof (cases "lt (key y) (key x)")
    case True
    have yx: "\<not> lt (key x) (key y)"
      using assms(1,2) Cons.prems(1) True unfolding swo_def by (metis image_subset_iff list.set_intros(1))
    have "\<forall>z\<in>set (insert_by lt key x ys). \<not> lt (key z) (key y)"
      using Cons.prems(2) yx by (auto simp: set_insert_by)
    moreover have "sorted_wrt (\<lambda>a b. \<not> lt (key b) (key a)) (insert_by lt key x ys)"
      using Cons by simp
    ultimately show ?thesis using True by simp
  next
    case False
    have "\<not> lt (key z) (key x)" if "z \<in> set ys" for z
    proof
      assume l: "lt (key z) (key x)"
      have "key z \<in> K" "key y \<in> K" using Cons.prems(1) that by auto
      from swo_between[OF assms(1) this(1) this(2) assms(2) l] False
      have "lt (key z) (key y)" by simp
      with Cons.prems(2) that show False by simp
    qed
    with False Cons.prems(2) show ?thesis by simp
  qed
qed

lemma sorted_stable_sort_by:
  assumes "swo lt K" and "key ` set xs \<subseteq> K"
  shows "sorted_wrt (\<lambda>a b. \<not> lt (key b) (key a)) (stable_sort_by lt key xs)"
  using assms(2)
proof (induction xs)
  case Nil
  show ?case by (simp add: stable_sort_by_def)
next
  case (Cons x xs)
  then show ?case
    unfolding stable_sort_by_Cons
    by (intro sorted_insert_by[OF assms(1)]) (simp_all add: set_stable_sort_by)
qed


lemma slice_to_prefix: "prefix (slice_to n xs) xs"
  by (simp add: slice_to_def take_is_prefix)

lemma scored_fst: "s \<in> set (scored ops enc anchor inputs) \<Longrightarrow> fst s = score ops enc anchor inputs (snd s)"
  by (auto simp: scored_def zip_map1 set_zip)

lemma map_snd_scored: "map snd (scored ops enc anchor inputs) = inputs"
  by (simp add: scored_def)

lemma map_snd_filter_zip:
  "map snd (filter (\<lambda>s. P (snd s)) (zip (map f xs) xs)) = filter P xs"
  by (induction xs) simp_all

lemma map_snd_filter_scored:
  "map snd (filter (\<lambda>s. P (snd s)) (scored ops enc anchor inputs)) = filter P inputs"
  unfolding scored_def by (rule map_snd_filter_zip)

lemma subseq_pairD: "subseq [a, b] ys \<Longrightarrow> \<exists>as bs cs. ys = as @ a # bs @ b # cs"
proof -
  assume "subseq [a, b] ys"
  then obtain us vs where 1: "ys = us @ a # vs" "subseq [b] vs"
    by (auto dest: list_emb_ConsD)
  then have "b \<in> set vs" by (simp add: subseq_singleton_left)
  then obtain bs cs where "vs = bs @ b # cs" by (auto simp: in_set_conv_decomp)
  with 1 show ?thesis by blast
qed

lemma equal_scores_keep_order:
  assumes "get_topn_similar ops enc anchor inputs n = Inr (Some out)"
    and "distinct inputs"
    and "i < j" and "j < length inputs"
    and "\<not> flt ops (fneg ops (score ops enc anchor inputs (inputs ! j)))
                   (fneg ops (score ops enc anchor inputs (inputs ! i)))"
    and "inputs ! j \<in> set out"
  shows "subseq [inputs ! i, inputs ! j] out"
proof -
  let ?z = "scored ops enc anchor inputs"
  let ?key = "\<lambda>s. fneg ops (fst s)"
  let ?srt = "stable_sort_by (flt ops) ?key ?z"
  from get_topn_similar_SomeD[OF assms(1)]
  have out: "out = map snd (slice_to n ?srt)" by simp
  have len: "length ?z = length inputs" by (simp add: scored_def)
  have zi: "?z ! i = (score ops enc anchor inputs (inputs ! i), inputs ! i)"
    and zj: "?z ! j = (score ops enc anchor inputs (inputs ! j), inputs ! j)"
    using assms(3,4) by (simp_all add: scored_def)
  have "subseq [?z ! i, ?z ! j] ?z"
    using assms(3,4) len by (simp add: subseq_pair_nth)
  moreover have "\<not> flt ops (?key (?z ! j)) (?key (?z ! i))"
    using assms(5) by (simp add: zi zj)
  ultimately have "subseq [?z ! i, ?z ! j] ?srt"
    by (rule stable_sort_by_keeps_order)
  then have "subseq (map snd [?z ! i, ?z ! j]) (map snd ?srt)"
    by (rule subseq_map)
  then have sub: "subseq [inputs ! i, inputs ! j] (map snd ?srt)"
    by (simp add: zi zj)
  have "mset (map snd ?srt) = mset (map snd ?z)"
    by (simp add: mset_stable_sort_by)
  then have "mset (map snd ?srt) = mset inputs"
    by (simp add: map_snd_scored)
  from mset_eq_imp_distinct_iff[OF this] assms(2) have dist: "distinct (map snd ?srt)"
    by simp
  have pre: "prefix out (map snd ?srt)"
    unfolding out by (simp add: slice_to_prefix map_mono_prefix)
  from subseq_pair_prefix[OF sub pre dist assms(6)] show ?thesis .
qed

lemma topn_filter_prefix:
  assumes "get_topn_similar ops enc anchor inputs n = Inr (Some out)" and "m < length inputs"
  shows "prefix (filter (\<lambda>c. tied ops (score ops enc anchor inputs c) (score ops enc anchor inputs (inputs ! m))) out)
                (filter (\<lambda>c. tied ops (score ops enc anchor inputs c) (score ops enc anchor inputs (inputs ! m))) inputs)"
proof -
  let ?z = "scored ops enc anchor inputs"
  let ?key = "\<lambda>s. fneg ops (fst s)"
  let ?srt = "stable_sort_by (flt ops) ?key ?z"
  let ?k = "fneg ops (score ops enc anchor inputs (inputs ! m))"
  let ?P = "\<lambda>c. tied ops (score ops enc anchor inputs c) (score ops enc anchor inputs (inputs ! m))"
  let ?Q = "\<lambda>s. \<not> flt ops (?key s) ?k \<and> \<not> flt ops ?k (?key s)"
  from get_topn_similar_SomeD[OF assms(1)]
  have sw: "swo (flt ops) (set (map ?key ?z))" and out: "out = map snd (slice_to n ?srt)"
    by (simp_all add: strict_weak_on_swo)
  have "?z ! m \<in> set ?z" using assms(2) by (intro nth_mem) (simp add: scored_def)
  then have "?key (?z ! m) \<in> ?key ` set ?z" by (rule imageI)
  moreover have "?key (?z ! m) = ?k" using assms(2) by (simp add: scored_def)
  ultimately have k: "?k \<in> set (map ?key ?z)" by simp
  have PQ: "?P (snd s) = ?Q s" if "s \<in> set ?z" for s
    using scored_fst[OF that] by (simp add: tied_def)
  have st: "filter ?Q ?srt = filter ?Q ?z"
    by (rule filter_stable_sort_by[OF sw _ k]) simp
  have "filter ?P (map snd ?srt) = map snd (filter (\<lambda>s. ?P (snd s)) ?srt)"
    by (simp add: filter_map comp_def)
  also have "filter (\<lambda>s. ?P (snd s)) ?srt = filter ?Q ?srt"
    by (rule filter_cong) (simp_all add: PQ set_stable_sort_by)
  also have "filter ?Q ?srt = filter ?Q ?z" by (rule st)
  also have "filter ?Q ?z = filter (\<lambda>s. ?P (snd s)) ?z"
    by (rule filter_cong) (simp_all add: PQ)
  also have "map snd (filter (\<lambda>s. ?P (snd s)) ?z) = filter ?P inputs"
    by (rule map_snd_filter_scored)
  finally have eq: "filter ?P (map snd ?srt) = filter ?P inputs" .
  have "prefix out (map snd ?srt)"
    unfolding out by (simp add: slice_to_prefix map_mono_prefix)
  then have "prefix (filter ?P out) (filter ?P (map snd ?srt))"
    by (rule filter_mono_prefix)
  then show ?thesis by (simp only: eq)
qed

lemma exact_ops_simps:
  "fdot exact_ops = (\<lambda>a b. sum_list (map2 (*) a b))"
  "fnorm exact_ops = (\<lambda>v. sqrt (sum_list (map (\<lambda>x. x * x) v)))"
  "fmul exact_ops = (*)" "fdiv exact_ops = (/)" "fneg exact_ops = uminus" "flt exact_ops = (<)"
  by (simp_all add: exact_ops_def)

lemma demo_scored:
  "scored exact_ops enc_demo ''q'' [''a'', ''b'', ''c'']
   = [(1 / sqrt 3, ''a''), (0, ''b''), (1 / sqrt 3, ''c'')]"
  by (simp add: scored_def score_def enc_demo_def exact_ops_simps)

lemma demo_sorted:
  "py_sorted (flt exact_ops) (\<lambda>s. fneg exact_ops (fst s))
     [(1 / sqrt 3, ''a''), (0, ''b''), (1 / sqrt 3, ''c'')]
   = Some [(1 / sqrt 3, ''a''), (1 / sqrt 3, ''c''), (0, ''b'')]"
  by (simp add: py_sorted_def strict_weak_on_def stable_sort_by_def exact_ops_simps)

lemma demo_run:
  "get_topn_similar exact_ops enc_demo ''q'' [''a'', ''b'', ''c''] 3 = Inr (Some [''a'', ''c'', ''b''])"
proof -
  have "list_all (\<lambda>c. length (enc_demo c) = length (enc_demo ''q'')) [''a'', ''b'', ''c'']"
    by (simp add: enc_demo_def)
  from get_topn_similar_returns[OF this, of exact_ops 3] show ?thesis
    by (simp add: demo_scored demo_sorted slice_to_def)
qed

text \<open>
  Claim C3. Whenever two candidates have exactly equal similarity scores to the anchor, the
  candidate that appears earlier in the input appears earlier in the output. For every call
  that returns a determined list: the candidates whose score equals that of a given candidate
  are, in the output, an initial part of those in the input, in the same order; and for
  distinct candidates at positions \<open>i < j\<close> with equal scores, if the later one is in the
  output then the earlier one is in the output before it.
\<close>

theorem get_topn_similar_stable:
  assumes "get_topn_similar ops enc anchor inputs n = Inr (Some out)"
  shows "(m < length inputs \<longrightarrow>
           prefix (filter (\<lambda>c. tied ops (score ops enc anchor inputs c)
                                       (score ops enc anchor inputs (inputs ! m))) out)
                  (filter (\<lambda>c. tied ops (score ops enc anchor inputs c)
                                       (score ops enc anchor inputs (inputs ! m))) inputs))
       \<and> (distinct inputs \<and> i < j \<and> j < length inputs
            \<and> tied ops (score ops enc anchor inputs (inputs ! i)) (score ops enc anchor inputs (inputs ! j))
            \<and> inputs ! j \<in> set out
          \<longrightarrow> (\<exists>as bs cs. out = as @ inputs ! i # bs @ inputs ! j # cs))"
proof (intro conjI impI)
  assume "m < length inputs"
  then show "prefix (filter (\<lambda>c. tied ops (score ops enc anchor inputs c)
                                       (score ops enc anchor inputs (inputs ! m))) out)
                  (filter (\<lambda>c. tied ops (score ops enc anchor inputs c)
                                       (score ops enc anchor inputs (inputs ! m))) inputs)"
    by (rule topn_filter_prefix[OF assms])
next
  assume a: "distinct inputs \<and> i < j \<and> j < length inputs
            \<and> tied ops (score ops enc anchor inputs (inputs ! i)) (score ops enc anchor inputs (inputs ! j))
            \<and> inputs ! j \<in> set out"
  then have "\<not> flt ops (fneg ops (score ops enc anchor inputs (inputs ! j)))
                   (fneg ops (score ops enc anchor inputs (inputs ! i)))"
    by (simp add: tied_def)
  with a have "subseq [inputs ! i, inputs ! j] out"
    using equal_scores_keep_order[OF assms] by blast
  then show "\<exists>as bs cs. out = as @ inputs ! i # bs @ inputs ! j # cs"
    by (rule subseq_pairD)
qed

theorem get_topn_similar_stable_witness:
  "get_topn_similar exact_ops enc_demo ''q'' [''a'', ''b'', ''c''] 3 = Inr (Some [''a'', ''c'', ''b''])
   \<and> distinct [''a'', ''b'', ''c'']
   \<and> tied exact_ops (score exact_ops enc_demo ''q'' [''a'', ''b'', ''c''] ''a'')
                     (score exact_ops enc_demo ''q'' [''a'', ''b'', ''c''] ''c'')
   \<and> prefix [''a'', ''c''] [''a'', ''c'']
   \<and> (\<exists>as bs cs. [''a'', ''c'', ''b''] = as @ ''a'' # bs @ ''c'' # cs)"
proof -
  let ?inp = "[''a'', ''b'', ''c'']"
  let ?sc = "score exact_ops enc_demo ''q'' ?inp"
  have r: "get_topn_similar exact_ops enc_demo ''q'' ?inp 3 = Inr (Some [''a'', ''c'', ''b''])"
    by (rule demo_run)
  have d: "distinct ?inp" by simp
  have sa: "?sc ''a'' = 1 / sqrt 3" and sb: "?sc ''b'' = 0" and sc: "?sc ''c'' = 1 / sqrt 3"
    by (simp_all add: score_def enc_demo_def exact_ops_simps)
  have t: "tied exact_ops (?sc (?inp ! 0)) (?sc (?inp ! 2))"
    by (simp add: tied_def sa sc exact_ops_simps)
  have tb: "\<not> tied exact_ops (?sc ''b'') (?sc ''c'')"
    by (simp add: tied_def sb sc exact_ops_simps)
  have m: "?inp ! 2 \<in> set [''a'', ''c'', ''b'']" by simp
  have l: "(0::nat) < 2" "2 < length ?inp" by simp_all
  from get_topn_similar_stable[OF r, of 2 0 2] d t m l
  have 1: "prefix (filter (\<lambda>c. tied exact_ops (?sc c) (?sc (?inp ! 2))) [''a'', ''c'', ''b''])
                  (filter (\<lambda>c. tied exact_ops (?sc c) (?sc (?inp ! 2))) ?inp)"
    and 2: "\<exists>as bs cs. [''a'', ''c'', ''b''] = as @ ?inp ! 0 # bs @ ?inp ! 2 # cs"
    by blast+
  from 1 have "prefix [''a'', ''c''] [''a'', ''c'']" by simp
  with r d t 2 show ?thesis by simp
qed

text \<open>Requesting all candidates gives, when the list is determined, a permutation of the
  input in which no later candidate has a greater score than an earlier one.\<close>

lemma topn_all_permutation:
  assumes "get_topn_similar ops enc anchor inputs (int (length inputs)) = Inr (Some out)"
  shows "mset out = mset inputs
       \<and> sorted_wrt (\<lambda>c c'. \<not> flt ops (fneg ops (score ops enc anchor inputs c'))
                                       (fneg ops (score ops enc anchor inputs c))) out"
proof -
  let ?z = "scored ops enc anchor inputs"
  let ?key = "\<lambda>s. fneg ops (fst s)"
  let ?srt = "stable_sort_by (flt ops) ?key ?z"
  from get_topn_similar_SomeD[OF assms]
  have sw: "swo (flt ops) (set (map ?key ?z))"
    and out: "out = map snd (slice_to (int (length inputs)) ?srt)"
    by (simp_all add: strict_weak_on_swo)
  have "length ?srt = length inputs"
    by (metis length_map map_snd_scored mset_stable_sort_by size_mset)
  then have o: "out = map snd ?srt" by (simp add: out slice_to_def)
  have "mset (map snd ?srt) = mset (map snd ?z)"
    by (simp add: mset_stable_sort_by)
  then have p: "mset out = mset inputs" by (simp add: o map_snd_scored)
  have "sorted_wrt (\<lambda>a b. \<not> flt ops (?key b) (?key a)) ?srt"
    by (rule sorted_stable_sort_by[OF sw]) simp
  then have "sorted_wrt (\<lambda>a b. \<not> flt ops (fneg ops (score ops enc anchor inputs (snd b)))
                                           (fneg ops (score ops enc anchor inputs (snd a)))) ?srt"
    by (rule sorted_wrt_mono_rel[rotated]) (simp add: scored_fst[symmetric] set_stable_sort_by)
  then have "sorted_wrt (\<lambda>c c'. \<not> flt ops (fneg ops (score ops enc anchor inputs c'))
                                       (fneg ops (score ops enc anchor inputs c))) (map snd ?srt)"
    by (simp add: sorted_wrt_map)
  with p o show ?thesis by simp
qed

text \<open>
  Claim C2. With \<open>N\<close> equal to the number of candidates the ranker is to return a permutation
  of the candidates. For a list of exactly one candidate and \<open>N = 1\<close> it returns nothing: the
  \<open>1 \<times> 1\<close> array of scores is squeezed to a zero-dimensional array, and iterating over it
  raises TypeError (ValueError before that, if the dimensions of the vectors differ).
\<close>

theorem get_topn_similar_all_of_one:
  "get_topn_similar ops enc anchor [c] (int (length [c])) =
     Inl (if length (enc c) = length (enc anchor) then TypeError else ValueError)"
  by (rule get_topn_similar_single)

text \<open>
  Claim C4. With \<open>N = 0\<close> the ranker is to return an empty sequence, and with \<open>N\<close> greater
  than the number of candidates all of them, in particular the single candidate of a
  one-element list. For a list of exactly one candidate it raises for \<open>N = 0\<close> and for every
  \<open>N \<ge> 2\<close>.
\<close>

theorem get_topn_similar_one_candidate:
  "get_topn_similar ops enc anchor [c] 0 =
     Inl (if length (enc c) = length (enc anchor) then TypeError else ValueError)
   \<and> get_topn_similar ops enc anchor [c] (2 + int k) =
     Inl (if length (enc c) = length (enc anchor) then TypeError else ValueError)"
  by (simp only: get_topn_similar_single)

section \<open>Properties of the knowledge-base client\<close>

lemma getpath_append: "getpath j (p @ q) = bind_e (getpath j p) (\<lambda>v. getpath v q)"
proof (induction p arbitrary: j)
  case Nil
  show ?case by simp
next
  case (Cons k p)
  show ?case by (cases "getitem j k") (simp_all add: Cons.IH)
qed

lemma py_split_nonempty: "py_split sep s \<noteq> []"
  by (induction s) (auto split: list.splits)

lemma py_split_append_sep: "py_split sep (xs @ sep # ys) = py_split sep xs @ py_split sep ys"
proof (induction xs)
  case Nil
  show ?case by simp
next
  case (Cons c cs)
  obtain w ws where "py_split sep cs = w # ws"
    using py_split_nonempty[of sep cs] by (cases "py_split sep cs") auto
  with Cons show ?case by simp
qed

lemma py_split_no_sep: "sep \<notin> set s \<Longrightarrow> py_split sep s = [s]"
  by (induction s) auto

lemma last_py_split_uri:
  "sep \<notin> set ident \<Longrightarrow> py_last (py_split sep (uri @ sep # ident)) = Inr ident"
  by (simp add: py_last_def py_split_append_sep py_split_no_sep py_split_nonempty)

lemma last_py_split_bare:
  "sep \<notin> set ident \<Longrightarrow> py_last (py_split sep ident) = Inr ident"
  by (simp add: py_last_def py_split_no_sep)

lemma svc_demo_simps:
  "svc_demo (claims_url ''Q193'') = Inr saturn_claims"
  "svc_demo (label_url ''Q613726'') = Inr (label_response ''Q613726'' ''yottagram'')"
  "svc_demo (label_url ''Q525'') = Inr (label_response ''Q525'' ''Sun'')"
  by (simp_all add: svc_demo_def claims_url_def label_url_def)

lemma demo_labels:
  "get_label svc_demo ''Q613726'' = Inr (JStr ''yottagram'')"
  "get_label svc_demo ''Q525'' = Inr (JStr ''Sun'')"
  by (simp_all add: get_label_def py_last_def svc_demo_simps label_response_def)

text \<open>
  Claim C7. For every entity identifier, \<^verbatim>\<open>get_label\<close> called with the bare identifier and
  called with a URI that ends in \<open>/\<close> and that identifier give the same result, since the
  argument is replaced by the text after its last \<open>/\<close>.
\<close>

theorem get_label_normalizes:
  assumes "CHR ''/'' \<notin> set ident"
  shows "get_label svc (uri @ ''/'' @ ident) = get_label svc ident"
  using assms by (simp add: get_label_def last_py_split_uri last_py_split_bare)

theorem get_label_normalizes_witness:
  "CHR ''/'' \<notin> set ''Q613726''
   \<and> get_label svc_demo (''http://www.wikidata.org/entity'' @ ''/'' @ ''Q613726'') = Inr (JStr ''yottagram'')
   \<and> get_label svc_demo ''Q613726'' = Inr (JStr ''yottagram'')"
proof -
  have h: "CHR ''/'' \<notin> set ''Q613726''" by simp
  from get_label_normalizes[OF h, of svc_demo "''http://www.wikidata.org/entity''"] h
  show ?thesis by (simp only: demo_labels simp_thms)
qed

text \<open>
  Claim C6. For every entity whose claims have no entry for the requested property,
  \<^verbatim>\<open>get_prop_value\<close> returns \<open>None\<close> and raises nothing.
\<close>

theorem get_prop_value_not_found:
  assumes "svc (claims_url entity) = Inr result"
    and "getpath result [Key ''entities'', Key entity, Key ''claims''] = Inr (JObj claims)"
    and "map_of claims prop = None"
  shows "get_prop_value svc entity prop = Inr None"
proof -
  have "getpath result ([Key ''entities'', Key entity, Key ''claims''] @ [Key prop, Idx 0, Key ''mainsnak''])
        = Inl KeyError"
    unfolding getpath_append using assms(2,3) by simp
  then show ?thesis
    using assms(1) by (simp add: get_prop_value_def)
qed

theorem get_prop_value_not_found_witness:
  "get_prop_value svc_demo ''Q193'' ''P2583'' = Inr None"
proof -
  have 1: "svc_demo (claims_url ''Q193'') = Inr saturn_claims" by (rule svc_demo_simps)
  have 2: "getpath saturn_claims [Key ''entities'', Key ''Q193'', Key ''claims''] =
     Inr (JObj [
      (''P2067'', snak (JObj [(''amount'', JStr ''+568360''),
                              (''unit'', JStr ''http://www.wikidata.org/entity/Q613726'')])),
      (''P397'', snak (JObj [(''entity-type'', JStr ''item''), (''numeric-id'', JNum 525),
                             (''id'', JStr ''Q525'')])),
      (''P373'', snak (JStr ''Saturn (planet)''))])"
    by (simp add: saturn_claims_def)
  show ?thesis
    by (rule get_prop_value_not_found[of svc_demo "''Q193''" saturn_claims, OF 1 2]) simp
qed

lemma get_prop_value_resolve:
  assumes "svc (claims_url entity) = Inr result"
    and "getpath result [Key ''entities'', Key entity, Key ''claims'', Key prop, Idx 0,
           Key ''mainsnak'', Key ''datavalue'', Key ''value''] = Inr dv"
  shows "get_prop_value svc entity prop =
         bind_e (claim_value svc dv) (\<lambda>val. bind_e (add_unit svc dv val) (\<lambda>v. Inr (Some v)))"
proof -
  let ?p = "[Key ''entities'', Key entity, Key ''claims'', Key prop, Idx 0, Key ''mainsnak'']"
  have "getpath result (?p @ [Key ''datavalue'', Key ''value'']) = Inr dv"
    using assms(2) by simp
  then obtain claim where c: "getpath result ?p = Inr claim"
    and d: "getpath claim [Key ''datavalue'', Key ''value''] = Inr dv"
    unfolding getpath_append by (cases "getpath result ?p") simp_all
  show ?thesis
    using assms(1) c d by (simp add: get_prop_value_def)
qed

lemma claim_value_shape:
  assumes "has_shape kvs sh"
  shows "claim_value svc (JObj kvs) = shape_value svc sh"
  using assms by (cases sh) (simp_all add: claim_value_def)

lemma add_unit_none:
  "map_of kvs ''unit'' = None \<Longrightarrow> add_unit svc (JObj kvs) val = Inr val"
  by (simp add: add_unit_def)

lemma add_unit_label:
  "map_of kvs ''unit'' = Some (JStr u) \<Longrightarrow> get_label svc u = Inr (JStr ul) \<Longrightarrow>
   add_unit svc (JObj kvs) (JStr b) = Inr (JStr (b @ '' '' @ ul))"
  by (simp add: add_unit_def)

text \<open>
  Claim C8. For the value of the first claim: an amount is returned without its leading
  \<open>+\<close>, a time as its time string, an entity reference as the label it resolves to; and when
  the value has a unit, the label of the unit is appended after one space.
\<close>

theorem get_prop_value_shapes:
  assumes "svc (claims_url entity) = Inr result"
    and "getpath result [Key ''entities'', Key entity, Key ''claims'', Key prop, Idx 0,
           Key ''mainsnak'', Key ''datavalue'', Key ''value''] = Inr (JObj kvs)"
    and "has_shape kvs sh"
    and "shape_value svc sh = Inr (JStr b)"
  shows "(map_of kvs ''unit'' = None \<longrightarrow>
            get_prop_value svc entity prop = Inr (Some (JStr b)))
       \<and> (\<forall>u ul. map_of kvs ''unit'' = Some (JStr u) \<and> get_label svc u = Inr (JStr ul) \<longrightarrow>
            get_prop_value svc entity prop = Inr (Some (JStr (b @ '' '' @ ul))))"
  by (simp add: get_prop_value_resolve[of svc entity result "prop" "JObj kvs", OF assms(1,2)] claim_value_shape[OF assms(3)] assms(4)
        add_unit_none add_unit_label)

theorem get_prop_value_shapes_witness:
  "get_prop_value svc_demo ''Q193'' ''P2067'' = Inr (Some (JStr ''568360 yottagram''))"
proof -
  let ?kvs = "[(''amount'', JStr ''+568360''),
               (''unit'', JStr ''http://www.wikidata.org/entity/Q613726'')]"
  have 1: "svc_demo (claims_url ''Q193'') = Inr saturn_claims" by (rule svc_demo_simps)
  have 2: "getpath saturn_claims [Key ''entities'', Key ''Q193'', Key ''claims'', Key ''P2067'', Idx 0,
           Key ''mainsnak'', Key ''datavalue'', Key ''value''] = Inr (JObj ?kvs)"
    by (simp add: saturn_claims_def snak_def)
  have 3: "has_shape ?kvs (Amount ''+568360'')" by simp
  have 4: "shape_value svc_demo (Amount ''+568360'') = Inr (JStr ''568360'')" by simp
  have 5: "map_of ?kvs ''unit'' = Some (JStr ''http://www.wikidata.org/entity/Q613726'')" by simp
  have 6: "get_label svc_demo ''http://www.wikidata.org/entity/Q613726'' = Inr (JStr ''yottagram'')"
    by (simp add: get_label_def py_last_def svc_demo_simps label_response_def)
  from get_prop_value_shapes[of svc_demo "''Q193''" saturn_claims, OF 1 2 3 4] 5 6
  have "get_prop_value svc_demo ''Q193'' ''P2067'' = Inr (Some (JStr (''568360'' @ '' '' @ ''yottagram'')))"
    by blast
  then show ?thesis by simp
qed

lemma add_unit_cases:
  assumes "add_unit svc (JObj kvs) l = Inr v"
  shows "v = l \<or> (\<exists>u ul. map_of kvs ''unit'' = Some u \<and> get_label_of svc u = Inr (JStr ul)
                     \<and> py_iadd l ('' '' @ ul) = Inr v)"
proof (cases "map_of kvs ''unit''")
  case None
  with assms show ?thesis by (simp add: add_unit_def)
next
  case (Some u)
  show ?thesis
  proof (cases "get_label_of svc u")
    case (Inl e)
    with Some assms show ?thesis by (simp add: add_unit_def split: if_splits)
  next
    case (Inr lab)
    show ?thesis
    proof (cases lab)
      case (JStr ul)
      with Some Inr assms show ?thesis
        by (cases "py_iadd l ('' '' @ ul)") (simp_all add: add_unit_def split: if_splits)
    qed (use Some Inr assms in \<open>simp_all add: add_unit_def\<close>)
  qed
qed

text \<open>
  Claim C5. Whenever the value of the first claim is an entity reference, what
  \<^verbatim>\<open>get_prop_value\<close> returns is the label that the lookup of that identifier gave (with the
  label of the unit appended, if there is one), never the identifier taken from the claim.
\<close>

theorem get_prop_value_id_resolved:
  assumes "svc (claims_url entity) = Inr result"
    and "getpath result [Key ''entities'', Key entity, Key ''claims'', Key prop, Idx 0,
           Key ''mainsnak'', Key ''datavalue'', Key ''value''] = Inr (JObj kvs)"
    and "has_shape kvs (EntityRef i)"
    and "get_prop_value svc entity prop = Inr (Some v)"
  shows "\<exists>l. get_label svc i = Inr l \<and>
           (v = l \<or> (\<exists>u ul. map_of kvs ''unit'' = Some u \<and> get_label_of svc u = Inr (JStr ul)
                        \<and> py_iadd l ('' '' @ ul) = Inr v))"
proof -
  have r: "bind_e (get_label svc i) (\<lambda>val. bind_e (add_unit svc (JObj kvs) val) (\<lambda>v. Inr (Some v)))
           = Inr (Some v)"
    using assms(4) by (simp add: get_prop_value_resolve[of svc entity result "prop" "JObj kvs", OF assms(1,2)] claim_value_shape[OF assms(3)])
  then obtain l where l: "get_label svc i = Inr l"
    by (cases "get_label svc i") simp_all
  with r have "add_unit svc (JObj kvs) l = Inr v"
    by (cases "add_unit svc (JObj kvs) l") simp_all
  from add_unit_cases[OF this] l show ?thesis by blast
qed

theorem get_prop_value_id_resolved_witness:
  "get_prop_value svc_demo ''Q193'' ''P397'' = Inr (Some (JStr ''Sun''))
   \<and> get_label svc_demo ''Q525'' = Inr (JStr ''Sun'')"
proof -
  let ?kvs = "[(''entity-type'', JStr ''item''), (''numeric-id'', JNum 525), (''id'', JStr ''Q525'')]"
  have 1: "svc_demo (claims_url ''Q193'') = Inr saturn_claims" by (rule svc_demo_simps)
  have 2: "getpath saturn_claims [Key ''entities'', Key ''Q193'', Key ''claims'', Key ''P397'', Idx 0,
           Key ''mainsnak'', Key ''datavalue'', Key ''value''] = Inr (JObj ?kvs)"
    by (simp add: saturn_claims_def snak_def)
  have 3: "has_shape ?kvs (EntityRef ''Q525'')" by simp
  have 4: "get_prop_value svc_demo ''Q193'' ''P397'' = Inr (Some (JStr ''Sun''))"
    by (simp add: get_prop_value_def svc_demo_simps saturn_claims_def snak_def claim_value_def
          add_unit_def demo_labels)
  from get_prop_value_id_resolved[of svc_demo "''Q193''" saturn_claims, OF 1 2 3 4] 4 show ?thesis
    by (auto simp: demo_labels)
qed

text \<open>A value that is an object without the keys \<open>amount\<close>, \<open>time\<close>, \<open>id\<close> and \<open>unit\<close> is
  returned as it is; a value that is a string is not.\<close>

lemma get_prop_value_raw_object:
  assumes "svc (claims_url entity) = Inr result"
    and "getpath result [Key ''entities'', Key entity, Key ''claims'', Key prop, Idx 0,
           Key ''mainsnak'', Key ''datavalue'', Key ''value''] = Inr (JObj kvs)"
    and "map_of kvs ''amount'' = None" and "map_of kvs ''time'' = None"
    and "map_of kvs ''id'' = None" and "map_of kvs ''unit'' = None"
  shows "get_prop_value svc entity prop = Inr (Some (JObj kvs))"
  using assms(3-6)
  by (simp add: get_prop_value_resolve[of svc entity result "prop" "JObj kvs", OF assms(1,2)]
        claim_value_def add_unit_def)

lemma string_value_raises:
  "bind_e (claim_value svc (JStr s)) (\<lambda>val. bind_e (add_unit svc (JStr s) val) (\<lambda>v. Inr (Some v)))
   = Inl TypeError"
  by (simp add: claim_value_def add_unit_def)

text \<open>
  Claim C10. A claim whose value has none of the three shapes is to be returned unchanged.
  For a value that is a string (here the Commons category of Saturn) the subscription with
  \<open>unit\<close> raises TypeError, which the handler for KeyError does not catch.
\<close>

theorem get_prop_value_string_raises:
  "get_prop_value svc_demo ''Q193'' ''P373'' = Inl TypeError"
proof -
  have 1: "svc_demo (claims_url ''Q193'') = Inr saturn_claims" by (rule svc_demo_simps)
  have 2: "getpath saturn_claims [Key ''entities'', Key ''Q193'', Key ''claims'', Key ''P373'', Idx 0,
           Key ''mainsnak'', Key ''datavalue'', Key ''value''] = Inr (JStr ''Saturn (planet)'')"
    by (simp add: saturn_claims_def snak_def)
  show ?thesis
    by (simp only: get_prop_value_resolve[of svc_demo "''Q193''" saturn_claims, OF 1 2] string_value_raises)
qed

section \<open>Properties of the response generator\<close>

lemma sublist_split_at:
  assumes "c \<notin> set w" and "sublist w (xs @ c # ys)"
  shows "sublist w xs \<or> sublist w ys"
proof -
  have p: "w' = []" if "prefix w' (c # ys)" "set w' \<subseteq> set w" for w'
    using that assms(1) by (cases w') (auto simp: prefix_Cons)
  from assms(2) consider "sublist w xs" | "sublist w (c # ys)"
    | w1 w2 where "w = w1 @ w2" "suffix w1 xs" "prefix w2 (c # ys)"
    unfolding sublist_append by blast
  then show ?thesis
  proof cases
    case 1
    then show ?thesis ..
  next
    case 2
    then show ?thesis
      unfolding sublist_Cons_right using p[of w] by auto
  next
    case 3
    with p[of w2] have "w = w1" by simp
    with 3 show ?thesis by auto
  qed
qed

lemma sublist_py_join:
  assumes "CHR '' '' \<notin> set w" and "\<not> sublist w ''EOS''" and "\<forall>t\<in>set d. \<not> sublist w t" and "w \<noteq> []"
  shows "\<not> sublist w (py_join '' EOS '' d)"
  using assms(3)
proof (induction "'' EOS ''" d rule: py_join.induct)
  case 1
  show ?case using assms(4) by simp
next
  case (2 x)
  then show ?case by simp
next
  case (3 x y ys)
  have "\<not> sublist w (py_join '' EOS '' (y # ys))" using 3 by simp
  moreover have "\<not> sublist w x" using 3 by simp
  moreover have "py_join '' EOS '' (x # y # ys) = x @ CHR '' '' # (''EOS'' @ CHR '' '' # py_join '' EOS '' (y # ys))"
    by simp
  ultimately show ?case
    using sublist_split_at[OF assms(1)] assms(2) by metis
qed

lemma generate_query_eq:
  "generate_query i k d =
     i @ '' [CONTEXT] '' @ py_join '' EOS '' d @ '' '' @ (if k = [] then [] else ''[KNOWLEDGE] '' @ k)"
  by (simp add: generate_query_def)

lemma marker_facts:
  "CHR '' '' \<notin> set ''[KNOWLEDGE]''" "\<not> sublist ''[KNOWLEDGE]'' ''EOS''"
  "\<not> sublist ''[KNOWLEDGE]'' ''[CONTEXT]''" "''[KNOWLEDGE]'' \<noteq> []"
  by (simp_all add: sublist_Cons_right prefix_Cons)

lemma no_marker_without_knowledge:
  assumes "\<not> sublist ''[KNOWLEDGE]'' i" and "\<forall>t\<in>set d. \<not> sublist ''[KNOWLEDGE]'' t"
  shows "\<not> sublist ''[KNOWLEDGE]'' (generate_query i [] d)"
proof
  let ?w = "''[KNOWLEDGE]''"
  let ?j = "py_join '' EOS '' d"
  assume "sublist ?w (generate_query i [] d)"
  then have "sublist ?w (i @ CHR '' '' # (''[CONTEXT]'' @ CHR '' '' # (?j @ CHR '' '' # [])))"
    by (simp add: generate_query_eq)
  then have "sublist ?w (''[CONTEXT]'' @ CHR '' '' # (?j @ CHR '' '' # []))"
    using sublist_split_at[OF marker_facts(1)] assms(1) by blast
  then have "sublist ?w (?j @ CHR '' '' # [])"
    using sublist_split_at[OF marker_facts(1)] marker_facts(3) by blast
  then have "sublist ?w ?j"
    using sublist_split_at[OF marker_facts(1)] by fastforce
  then show False
    using sublist_py_join[OF marker_facts(1,2) assms(2) marker_facts(4)] by blast
qed


lemma py_join_concat:
  "py_join sep d = (if d = [] then [] else concat (map (\<lambda>t. t @ sep) (butlast d)) @ last d)"
  by (induction sep d rule: py_join.induct) simp_all

text \<open>
  Claim C9, as stated, says that no knowledge marker appears in the prompt when the knowledge
  is empty. The turns are copied into the prompt as they are: a turn that holds the marker
  puts it into the prompt, with empty knowledge.
\<close>

theorem generate_query_marker_counterexample:
  "sublist ''[KNOWLEDGE] '' (generate_query instruction [] [''[KNOWLEDGE] x''])"
proof -
  have "generate_query instruction [] [''[KNOWLEDGE] x'']
        = (instruction @ '' [CONTEXT] '') @ ''[KNOWLEDGE] '' @ ''x ''"
    by (simp add: generate_query_eq)
  then show ?thesis
    by (simp only: sublist_appendI)
qed

text \<open>
  Claim C9, amended. The prompt is the instruction, the context marker, the turns of the
  dialogue joined with \<open>EOS\<close>, a space, and the knowledge marker followed by the knowledge
  exactly when the knowledge is not empty. For an instruction and turns that do not
  themselves contain the marker, the prompt contains it if and only if the knowledge is not
  empty.
\<close>

theorem generate_query_structure:
  "generate lm i k d = lm (generate_query i k d)
   \<and> generate_query i k d =
       i @ '' [CONTEXT] ''
         @ (if d = [] then [] else concat (map (\<lambda>t. t @ '' EOS '') (butlast d)) @ last d)
         @ '' '' @ (if k = [] then [] else ''[KNOWLEDGE] '' @ k)
   \<and> (\<not> sublist ''[KNOWLEDGE]'' i \<and> (\<forall>t\<in>set d. \<not> sublist ''[KNOWLEDGE]'' t) \<longrightarrow>
        (sublist ''[KNOWLEDGE] '' (generate_query i k d) \<longleftrightarrow> k \<noteq> []))"
proof (intro conjI impI)
  show "generate lm i k d = lm (generate_query i k d)"
    by (simp add: generate_def)
  show "generate_query i k d =
       i @ '' [CONTEXT] ''
         @ (if d = [] then [] else concat (map (\<lambda>t. t @ '' EOS '') (butlast d)) @ last d)
         @ '' '' @ (if k = [] then [] else ''[KNOWLEDGE] '' @ k)"
    by (simp only: generate_query_eq py_join_concat)
next
  assume a: "\<not> sublist ''[KNOWLEDGE]'' i \<and> (\<forall>t\<in>set d. \<not> sublist ''[KNOWLEDGE]'' t)"
  show "sublist ''[KNOWLEDGE] '' (generate_query i k d) \<longleftrightarrow> k \<noteq> []"
  proof (cases "k = []")
    case True
    have "sublist ''[KNOWLEDGE]'' ''[KNOWLEDGE] ''" by (simp add: sublist_Cons_right)
    moreover have "\<not> sublist ''[KNOWLEDGE]'' (generate_query i [] d)"
      using a by (simp add: no_marker_without_knowledge)
    ultimately have "\<not> sublist ''[KNOWLEDGE] '' (generate_query i [] d)"
      using sublist_order.order_trans by blast
    with True show ?thesis by simp
  next
    case False
    have "generate_query i k d = (i @ '' [CONTEXT] '' @ py_join '' EOS '' d @ '' '') @ ''[KNOWLEDGE] '' @ k"
      using False by (simp add: generate_query_eq)
    then have "sublist ''[KNOWLEDGE] '' (generate_query i k d)"
      by (simp only: sublist_appendI)
    with False show ?thesis by simp
  qed
qed

theorem generate_query_structure_witness:
  "\<not> sublist ''[KNOWLEDGE]'' instruction
   \<and> \<not> sublist ''[KNOWLEDGE]'' ''Hi''
   \<and> \<not> sublist ''[KNOWLEDGE]'' ''Who is Joe Biden?''
   \<and> generate_query instruction [] [''Hi'', ''Who is Joe Biden?''] =
       ''Instruction: given a dialog context and related knowledge, you need to respond safely based on the knowledge. [CONTEXT] Hi EOS Who is Joe Biden? ''
   \<and> generate_query instruction ''Joe Biden is a politician.'' [''Hi'', ''Who is Joe Biden?''] =
       ''Instruction: given a dialog context and related knowledge, you need to respond safely based on the knowledge. [CONTEXT] Hi EOS Who is Joe Biden? [KNOWLEDGE] Joe Biden is a politician.''
   \<and> \<not> sublist ''[KNOWLEDGE] '' (generate_query instruction [] [''Hi'', ''Who is Joe Biden?''])
   \<and> sublist ''[KNOWLEDGE] '' (generate_query instruction ''Joe Biden is a politician.'' [''Hi'', ''Who is Joe Biden?''])"
proof -
  let ?d = "[''Hi'', ''Who is Joe Biden?'']"
  let ?k = "''Joe Biden is a politician.''"
  have 1: "\<not> sublist ''[KNOWLEDGE]'' instruction"
    by (simp add: instruction_def sublist_Cons_right prefix_Cons)
  have 2: "\<not> sublist ''[KNOWLEDGE]'' ''Hi''" "\<not> sublist ''[KNOWLEDGE]'' ''Who is Joe Biden?''"
    by (simp_all add: sublist_Cons_right prefix_Cons)
  have 3: "\<forall>t\<in>set ?d. \<not> sublist ''[KNOWLEDGE]'' t"
    using 2 by simp
  note e = generate_query_structure[of id instruction "[]" ?d]
  note f = generate_query_structure[of id instruction ?k ?d]
  from e have p: "generate_query instruction [] ?d =
       ''Instruction: given a dialog context and related knowledge, you need to respond safely based on the knowledge. [CONTEXT] Hi EOS Who is Joe Biden? ''"
    by (simp add: instruction_def)
  from f have q: "generate_query instruction ?k ?d =
       ''Instruction: given a dialog context and related knowledge, you need to respond safely based on the knowledge. [CONTEXT] Hi EOS Who is Joe Biden? [KNOWLEDGE] Joe Biden is a politician.''"
    by (simp add: instruction_def)
  from e 1 3 have a: "\<not> sublist ''[KNOWLEDGE] '' (generate_query instruction [] ?d)"
    by blast
  from f 1 3 have b: "sublist ''[KNOWLEDGE] '' (generate_query instruction ?k ?d)"
    by blast
  from 1 2 p q a b show ?thesis by blast
qed

section \<open>Properties of the interactive loop\<close>

text \<open>Without knowledge augmentation, the call of \<^verbatim>\<open>generate\<close> in turn \<open>n\<close> gets the first 500
  of the turns so far.\<close>

lemma main_loop_length: "length (main_loop False kb dialog qs) = length qs"
  by (induction qs arbitrary: dialog) (simp_all add: Let_def)

lemma main_loop_nth:
  "n < length qs \<Longrightarrow>
   main_loop False kb dialog qs ! n = (instruction, [], take 500 (dialog @ take (Suc n) qs))"
proof (induction qs arbitrary: dialog n)
  case Nil
  then show ?case by simp
next
  case (Cons q qs)
  show ?case
  proof (cases n)
    case 0
    then show ?thesis by (simp add: Let_def)
  next
    case (Suc m)
    with Cons.prems have "m < length qs" by simp
    from Cons.IH[OF this, of "dialog @ [q]"] Suc show ?thesis by (simp add: Let_def)
  qed
qed

text \<open>
  Claim C1. After 501 turns the history given to \<^verbatim>\<open>generate\<close> is to hold the 500 most
  recent turns. The slice \<^verbatim>\<open>dialog[:500]\<close> keeps the 500 oldest: in turn 501 the history is
  the first 500 turns, and the query of that turn is not in it.
\<close>

theorem main_loop_keeps_oldest:
  "snd (snd (main_loop False kb [] (replicate 500 ''old'' @ [''new'']) ! 500)) = replicate 500 ''old''
   \<and> ''new'' \<notin> set (snd (snd (main_loop False kb [] (replicate 500 ''old'' @ [''new'']) ! 500)))
   \<and> snd (snd (main_loop False kb [] (replicate 500 ''old'' @ [''new'']) ! 500))
       \<noteq> drop 1 (replicate 500 ''old'' @ [''new''])"
proof -
  have "main_loop False kb [] (replicate 500 ''old'' @ [''new'']) ! 500
        = (instruction, [], take 500 ([] @ take (Suc 500) (replicate 500 ''old'' @ [''new''])))"
    by (rule main_loop_nth) simp
  then have h: "snd (snd (main_loop False kb [] (replicate 500 ''old'' @ [''new'']) ! 500))
        = replicate 500 ''old''"
    by simp
  have "''new'' \<in> set (drop 1 (replicate 500 ''old'' @ [''new'']))"
    by simp
  moreover have "''new'' \<notin> set (replicate 500 ''old'')"
    by simp
  ultimately have "replicate 500 ''old'' \<noteq> drop 1 (replicate 500 ''old'' @ [''new''])"
    by metis
  with h show ?thesis by simp
qed

end
